theory Spec2Isabelle
  imports Main "HOL-Library.Sublist"
begin

section \<open>The notemap generator \<^verbatim>\<open>contrib/scripts/notemapgen.py\<close>\<close>

text \<open>
  The script opens \<^verbatim>\<open>test.notemap\<close> for writing, writes a header, one block of
  four settings for every note of \<^verbatim>\<open>range(12, 128)\<close>, a trailing editor line, and
  closes the file. It has no function of its own: the module body is the program.
  Before that it imports \<^verbatim>\<open>os\<close>, \<^verbatim>\<open>string\<close> and \<^verbatim>\<open>sys\<close>, and uses none of them.

  The embedding makes the three library calls the script uses (\<^verbatim>\<open>open\<close>,
  \<^verbatim>\<open>file.write\<close>, \<^verbatim>\<open>file.close\<close>) explicit operations on a world: the files of the
  working directory, the process environment, and a record of the calls made. Each of
  the calls can raise \<^verbatim>\<open>OSError\<close>; which call does is the environment's choice, given
  as a field of the world. The script has no \<^verbatim>\<open>try\<close>, so an error ends the run.
  A write is taken to reach the file at once: buffering, and what other processes do to
  the directory meanwhile, are left out.

  An \<^verbatim>\<open>import\<close> of a module that is not loaded yet makes the interpreter look for the
  module's file, read it, cache its bytecode and run it; the world holds what this needs:
  the script's directory, the standard library's, the modules loaded, and a record of
  the module files read.
\<close>

subsection \<open>Python values\<close>

text \<open>\<^verbatim>\<open>str(x)\<close> of an integer: decimal digits, most significant first, \<^verbatim>\<open>-\<close> before a
  negative number.\<close>

definition digit_char :: "nat \<Rightarrow> char" where
  "digit_char d = char_of (48 + d)"

function str_nat :: "nat \<Rightarrow> string" where
  "str_nat n = (if n < 10 then [digit_char n] else str_nat (n div 10) @ [digit_char (n mod 10)])"
  by pat_completeness auto
termination
  by (relation "measure (\<lambda>n. n)") auto

declare str_nat.simps [simp del]

definition str :: "int \<Rightarrow> string" where
  "str i = (if i < 0 then CHR ''-'' # str_nat (nat (- i)) else str_nat (nat i))"

text \<open>\<^verbatim>\<open>range(a, b)\<close>: the integers from \<open>a\<close> up to, not including, \<open>b\<close>.\<close>

definition range_py :: "int \<Rightarrow> int \<Rightarrow> int list" where
  "range_py a b = [a..b - 1]"

subsection \<open>The world and the three file operations\<close>

datatype error = OSError int | ModuleNotFoundError string | SystemExit int

datatype io_call = Open string | Write string string | Close string

text \<open>
  \<open>fs\<close> maps the path of a file to its content; a path with no directory is a file of
  the working directory.
  \<open>trace\<close> lists the calls made so far, oldest first, the failed ones too.
  \<open>faults\<close> is the environment's choice: the call made when \<open>k\<close> calls have been made
  before raises \<open>e\<close> when \<open>faults k = Some e\<close>. \<open>open_files\<close> names the handles that
  are open.

  The other fields are the interpreter's: \<open>script_dir\<close> is the directory of the script,
  the first entry of \<^verbatim>\<open>sys.path\<close>, and \<open>stdlib_dir\<close> the standard library's, the last;
  \<open>sys_modules\<close> names the modules that are loaded; \<open>loads\<close> lists the module files read
  so far; \<open>write_bytecode\<close> says whether bytecode is cached. What running the text of a
  module raises, and the bytecode of a text, are properties of the language that the
  embedding does not compute: \<open>py_exec\<close> and \<open>py_compile\<close> give them.
\<close>

record world =
  fs :: "string \<rightharpoonup> string"
  environ :: "string \<rightharpoonup> string"
  argv :: "string list"
  open_files :: "string list"
  trace :: "io_call list"
  faults :: "nat \<Rightarrow> error option"
  script_dir :: string
  stdlib_dir :: string
  sys_modules :: "string list"
  loads :: "string list"
  write_bytecode :: bool
  py_exec :: "string \<Rightarrow> error option"
  py_compile :: "string \<Rightarrow> string"

record pyfile =
  name :: string

type_synonym 'a io = "world \<Rightarrow> (error \<times> world) + ('a \<times> world)"

definition io_bind :: "'a io \<Rightarrow> ('a \<Rightarrow> 'b io) \<Rightarrow> 'b io" where
  "io_bind m f w = (case m w of Inl x \<Rightarrow> Inl x | Inr (a, w') \<Rightarrow> f a w')"

definition io_then :: "unit io \<Rightarrow> 'b io \<Rightarrow> 'b io" where
  "io_then m k = io_bind m (\<lambda>_. k)"

definition log_call :: "io_call \<Rightarrow> world \<Rightarrow> world" where
  "log_call c w = w\<lparr>trace := trace w @ [c]\<rparr>"

text \<open>What a call that does not raise does: mode \<^verbatim>\<open>"w"\<close> creates the file or empties
  it; a write appends to the file; a close gives the handle back.\<close>

fun effect :: "io_call \<Rightarrow> world \<Rightarrow> world" where
  "effect (Open nm) w = w\<lparr>fs := (fs w)(nm \<mapsto> []), open_files := nm # open_files w\<rparr>"
| "effect (Write nm s) w =
     w\<lparr>fs := (fs w)(nm \<mapsto> (case fs w nm of None \<Rightarrow> s | Some c \<Rightarrow> c @ s))\<rparr>"
| "effect (Close nm) w = w\<lparr>open_files := remove1 nm (open_files w)\<rparr>"

definition perform :: "io_call \<Rightarrow> world \<Rightarrow> world" where
  "perform c w = effect c (log_call c w)"

definition syscall :: "io_call \<Rightarrow> unit io" where
  "syscall c w =
     (case faults w (length (trace w)) of
        Some e \<Rightarrow> Inl (e, log_call c w)
      | None \<Rightarrow> Inr ((), perform c w))"

definition py_open :: "string \<Rightarrow> pyfile io" where
  "py_open nm = io_bind (syscall (Open nm)) (\<lambda>_ w. Inr (\<lparr>name = nm\<rparr>, w))"

definition py_write :: "pyfile \<Rightarrow> string \<Rightarrow> unit io" where
  "py_write f s = syscall (Write (name f) s)"

definition py_close :: "pyfile \<Rightarrow> unit io" where
  "py_close f = syscall (Close (name f))"

subsection \<open>The import statement\<close>

text \<open>
  \<^verbatim>\<open>import m\<close> does nothing when \<open>m\<close> is loaded already. Otherwise the directories of
  \<^verbatim>\<open>sys.path\<close> are searched in order: the script's directory, the directories of the
  environment variable \<^verbatim>\<open>PYTHONPATH\<close> (separated by colons), the standard library. The
  first directory that holds \<^verbatim>\<open>m.py\<close> decides: the file is read, its bytecode is written
  to the cache directory beside it when caching is on, and its text is run; an error it
  raises is the import's. With no such file the import raises \<^verbatim>\<open>ModuleNotFoundError\<close>.
  Packages, extension modules and an existing cache are left out, and so is everything a
  module does when run except raising.
\<close>

fun split_colon :: "string \<Rightarrow> string list" where
  "split_colon [] = [[]]"
| "split_colon (c # cs) =
     (if c = CHR '':'' then [] # split_colon cs
      else (case split_colon cs of [] \<Rightarrow> [[c]] | d # ds \<Rightarrow> (c # d) # ds))"

definition module_path :: "string \<Rightarrow> string \<Rightarrow> string" where
  "module_path d m = d @ ''/'' @ m @ ''.py''"

definition cache_path :: "string \<Rightarrow> string \<Rightarrow> string" where
  "cache_path d m = d @ ''/__pycache__/'' @ m @ ''.pyc''"

definition search_path :: "world \<Rightarrow> string list" where
  "search_path w =
     script_dir w
       # (case environ w ''PYTHONPATH'' of None \<Rightarrow> [] | Some p \<Rightarrow> split_colon p)
       @ [stdlib_dir w]"

definition find_module :: "world \<Rightarrow> string \<Rightarrow> string option" where
  "find_module w m = List.find (\<lambda>d. fs w (module_path d m) \<noteq> None) (search_path w)"

definition store_cache :: "string \<Rightarrow> string \<Rightarrow> string \<Rightarrow> world \<Rightarrow> world" where
  "store_cache d m src w =
     (if write_bytecode w then w\<lparr>fs := (fs w)(cache_path d m \<mapsto> py_compile w src)\<rparr> else w)"

definition load_module :: "string \<Rightarrow> string \<Rightarrow> string \<Rightarrow> unit io" where
  "load_module d m src w =
     (let w1 = store_cache d m src (w\<lparr>loads := loads w @ [module_path d m]\<rparr>) in
      case py_exec w src of
        Some e \<Rightarrow> Inl (e, w1)
      | None \<Rightarrow> Inr ((), w1\<lparr>sys_modules := m # sys_modules w\<rparr>))"

definition py_import :: "string \<Rightarrow> unit io" where
  "py_import m w =
     (if m \<in> set (sys_modules w) then Inr ((), w)
      else case find_module w m of
          None \<Rightarrow> Inl (ModuleNotFoundError m, w)
        | Some d \<Rightarrow>
            (case fs w (module_path d m) of
               None \<Rightarrow> Inl (ModuleNotFoundError m, w)
             | Some src \<Rightarrow> load_module d m src w))"

subsection \<open>The script\<close>

text \<open>
  \<open>main_run\<close> is the part of the file under its \<^verbatim>\<open>__main__\<close> heading, the statements from
  \<^verbatim>\<open>open\<close> to \<^verbatim>\<open>close\<close>; \<open>notemapgen\<close> is the whole module: the three imports, then
  \<open>main_run\<close>.
\<close>

text \<open>The body of the \<^verbatim>\<open>for\<close> loop: five writes.\<close>

definition loop_body :: "pyfile \<Rightarrow> int \<Rightarrow> unit io" where
  \<open>loop_body file x =
     io_then (py_write file (''[Drum '' @ str x @ '']\<newline>\<newline>''))
    (io_then (py_write file (''dev-name = "Dev note '' @ str x @ ''"\<newline>''))
    (io_then (py_write file (''gm-name = "GM note '' @ str (x - 12) @ ''"\<newline>''))
    (io_then (py_write file (''dev-note = '' @ str x @ ''\<newline>''))
             (py_write file (''gm-note = '' @ str (x - 12) @ ''\<newline>\<newline>'')))))\<close>

fun for_loop :: "pyfile \<Rightarrow> int list \<Rightarrow> unit io" where
  "for_loop file [] = (\<lambda>w. Inr ((), w))"
| "for_loop file (x # xs) = io_then (loop_body file x) (for_loop file xs)"

definition main_run :: "unit io" where
  "main_run =
     io_bind (py_open ''test.notemap'') (\<lambda>file.
     io_then (py_write file (''Test notemap file: '' @ name file @ ''\<newline>\<newline>''))
    (io_then (for_loop file (range_py 12 128))
    (io_then (py_write file ''# vim: sw=4 ts=4 wm=4 et ft=dosini'')
             (py_close file))))"

definition notemapgen :: "unit io" where
  "notemapgen =
     io_then (py_import ''os'')
    (io_then (py_import ''string'')
    (io_then (py_import ''sys'')
             main_run))"

subsection \<open>The script as a list of calls\<close>

text \<open>
  The script makes the same calls in the same order in every run: it has no branch, and
  the loop runs over a fixed range. \<open>run_calls\<close> makes a list of calls one after the
  other and stops at the first that raises; \<open>main_calls\<close> is the list of the script,
  \<open>main_chunks\<close> the strings it writes, \<open>body_chunks x\<close> those of one turn of the loop.
  That \<open>main_run\<close> is \<open>run_calls main_calls\<close> is lemma \<open>main_run_calls\<close> below.
  \<open>perform_all\<close> is the effect of a list of calls none of which raises.
\<close>

fun run_calls :: "io_call list \<Rightarrow> unit io" where
  "run_calls [] = (\<lambda>w. Inr ((), w))"
| "run_calls (c # cs) = io_then (syscall c) (run_calls cs)"

definition body_chunks :: "int \<Rightarrow> string list" where
  \<open>body_chunks x =
     [''[Drum '' @ str x @ '']\<newline>\<newline>'',
      ''dev-name = "Dev note '' @ str x @ ''"\<newline>'',
      ''gm-name = "GM note '' @ str (x - 12) @ ''"\<newline>'',
      ''dev-note = '' @ str x @ ''\<newline>'',
      ''gm-note = '' @ str (x - 12) @ ''\<newline>\<newline>'']\<close>

definition main_chunks :: "string list" where
  "main_chunks =
     ''Test notemap file: test.notemap\<newline>\<newline>''
       # concat (map body_chunks (range_py 12 128))
       @ [''# vim: sw=4 ts=4 wm=4 et ft=dosini'']"

definition main_calls :: "io_call list" where
  "main_calls =
     Open ''test.notemap'' # map (Write ''test.notemap'') main_chunks @ [Close ''test.notemap'']"

definition perform_all :: "io_call list \<Rightarrow> world \<Rightarrow> world" where
  "perform_all cs w = foldl (\<lambda>w c. perform c w) w cs"

text \<open>
  The world a run ends in, whether it returned or raised, the calls it made, the file a
  call is about, and what a call writes.
\<close>

fun final_world :: "(error \<times> world) + ('a \<times> world) \<Rightarrow> world" where
  "final_world (Inl (e, w)) = w"
| "final_world (Inr (a, w)) = w"

definition new_calls :: "world \<Rightarrow> (error \<times> world) + ('a \<times> world) \<Rightarrow> io_call list" where
  "new_calls w r = drop (length (trace w)) (trace (final_world r))"


fun written_text :: "io_call \<Rightarrow> string" where
  "written_text (Open nm) = []"
| "written_text (Write nm s) = s"
| "written_text (Close nm) = []"

fun is_write :: "io_call \<Rightarrow> bool" where
  "is_write (Open nm) = False"
| "is_write (Write nm s) = True"
| "is_write (Close nm) = False"

text \<open>
  The modules the script imports, the imports one after the other, the files a module
  search can read and the cache files it can write in a given world, the module files a
  run reads, and what an import leaves as it was: everything but the caches, the record
  of files read and the modules loaded.
\<close>

definition imported :: "string list" where
  "imported = [''os'', ''string'', ''sys'']"

fun import_all :: "string list \<Rightarrow> unit io" where
  "import_all [] = (\<lambda>w. Inr ((), w))"
| "import_all (m # ms) = io_then (py_import m) (import_all ms)"

definition module_files :: "world \<Rightarrow> string list" where
  "module_files w = concat (map (\<lambda>m. map (\<lambda>d. module_path d m) (search_path w)) imported)"

definition cache_files :: "world \<Rightarrow> string list" where
  "cache_files w = concat (map (\<lambda>m. map (\<lambda>d. cache_path d m) (search_path w)) imported)"


definition import_frame :: "world \<Rightarrow> world \<Rightarrow> bool" where
  "import_frame w u =
     (trace u = trace w \<and> faults u = faults w \<and> environ u = environ w \<and> argv u = argv w \<and>
      open_files u = open_files w \<and> script_dir u = script_dir w \<and> stdlib_dir u = stdlib_dir w \<and>
      write_bytecode u = write_bytecode w \<and> py_exec u = py_exec w \<and> py_compile u = py_compile w \<and>
      (\<forall>n. n \<notin> set (cache_files w) \<longrightarrow> fs u n = fs w n) \<and>
      (\<exists>ls. loads u = loads w @ ls \<and> set ls \<subseteq> set (module_files w)))"

subsection \<open>Reading the generated text\<close>

text \<open>
  The claims speak of the lines of the file. \<open>split_lines\<close> cuts a text at every line
  feed, as splitting a Python string at the line feed does: a text with \<open>n\<close> line feeds has \<open>n + 1\<close> lines, the
  last one being what follows the last line feed. \<open>terminated\<close> is the inverse on lines
  that each end in a line feed. A section header is a line that starts with a bracket.
\<close>

fun split_lines :: "string \<Rightarrow> string list" where
  "split_lines [] = [[]]"
| "split_lines (c # cs) =
     (if c = CHR ''\<newline>'' then [] # split_lines cs
      else (case split_lines cs of [] \<Rightarrow> [[c]] | l # ls \<Rightarrow> (c # l) # ls))"

definition terminated :: "string list \<Rightarrow> string" where
  "terminated ls = concat (map (\<lambda>l. l @ [CHR ''\<newline>'']) ls)"

definition section_headers :: "string \<Rightarrow> string list" where
  "section_headers c = filter (\<lambda>l. take 1 l = ''['') (split_lines c)"

text \<open>
  The block the specification gives for note \<open>N\<close>, line by line, and the lines of the
  whole file as the specification lists them.
\<close>

definition drum_header :: "int \<Rightarrow> string" where
  "drum_header N = ''[Drum '' @ str N @ '']''"

definition drum_block :: "int \<Rightarrow> string list" where
  \<open>drum_block N =
     [drum_header N,
      '''',
      ''dev-name = "Dev note '' @ str N @ ''"'',
      ''gm-name = "GM note '' @ str (N - 12) @ ''"'',
      ''dev-note = '' @ str N,
      ''gm-note = '' @ str (N - 12),
      '''']\<close>

definition notemap_lines :: "string list" where
  "notemap_lines =
     [''Test notemap file: test.notemap'', ''''] @ concat (map drum_block [12..127])
       @ [''# vim: sw=4 ts=4 wm=4 et ft=dosini'']"

text \<open>
  Reading a decimal numeral back, as \<^verbatim>\<open>int(s)\<close> does on the output of \<^verbatim>\<open>str\<close>; used to
  say which number a line of the file holds.
\<close>

definition digit_value :: "char \<Rightarrow> nat" where
  "digit_value c = of_char c - 48"

definition dec_value :: "string \<Rightarrow> nat" where
  "dec_value s = foldl (\<lambda>a c. 10 * a + digit_value c) 0 s"

definition int_of_str :: "string \<Rightarrow> int" where
  "int_of_str s = (case s of [] \<Rightarrow> 0
     | c # r \<Rightarrow> if c = CHR ''-'' then - int (dec_value r) else int (dec_value s))"

text \<open>
  The characters of a numeral, and the characters the claims allow in the file: the line
  feed and printable ASCII (codes 32 to 126).
\<close>

definition is_digit :: "char \<Rightarrow> bool" where
  "is_digit c = (48 \<le> (of_char c :: nat) \<and> (of_char c :: nat) \<le> 57)"

definition emitted_char :: "char \<Rightarrow> bool" where
  "emitted_char c = (c = CHR ''\<newline>'' \<or> (32 \<le> (of_char c :: nat) \<and> (of_char c :: nat) \<le> 126))"

subsection \<open>Concrete worlds\<close>

text \<open>
  \<open>world0\<close>: a directory that already holds a stale \<^verbatim>\<open>test.notemap\<close> and another file,
  and an environment in which no call raises. \<open>world1\<close> and \<open>world2\<close> are the worlds
  after one and after two runs of \<open>main_run\<close>. In \<open>disk_full\<close> the second call, the first write, raises
  \<^verbatim>\<open>ENOSPC\<close> (28); in \<open>denied\<close> the first call, the open, raises \<^verbatim>\<open>EACCES\<close> (13).
  In \<open>world0\<close> the interpreter has \<^verbatim>\<open>sys\<close> and \<^verbatim>\<open>os\<close> loaded, as it has at start-up, the
  standard library holds \<^verbatim>\<open>string.py\<close>, and a directory outside the search path holds a
  file of that name that exits when run; \<open>world0_imported\<close> is the world the imports
  leave. \<open>shadowed\<close> is \<open>world0\<close> with \<^verbatim>\<open>PYTHONPATH\<close> set to that directory.
\<close>

definition world0 :: world where
  "world0 =
     \<lparr>fs = [''test.notemap'' \<mapsto> ''stale'', ''notes.txt'' \<mapsto> ''keep'',
            ''/usr/lib/python3/string.py'' \<mapsto> ''import re'',
            ''/tmp/shadow/string.py'' \<mapsto> ''raise SystemExit(3)''],
      environ = [''HOME'' \<mapsto> ''/root''],
      argv = [''notemapgen.py''],
      open_files = [],
      trace = [],
      faults = (\<lambda>k. None),
      script_dir = ''/opt/seq66/contrib/scripts'',
      stdlib_dir = ''/usr/lib/python3'',
      sys_modules = [''sys'', ''os''],
      loads = [],
      write_bytecode = True,
      py_exec = (\<lambda>src. if src = ''raise SystemExit(3)'' then Some (SystemExit 3) else None),
      py_compile = (\<lambda>src. ''bytecode:'' @ src)\<rparr>"

definition world1 :: world where
  "world1 = world0\<lparr>fs := (fs world0)(''test.notemap'' \<mapsto> concat main_chunks), trace := main_calls\<rparr>"

definition world2 :: world where
  "world2 = world1\<lparr>trace := main_calls @ main_calls\<rparr>"

definition disk_full :: world where
  "disk_full = world0\<lparr>faults := (\<lambda>k. if k = 1 then Some (OSError 28) else None)\<rparr>"

definition denied :: world where
  "denied = world0\<lparr>faults := (\<lambda>k. if k = 0 then Some (OSError 13) else None)\<rparr>"



section \<open>Properties of the model\<close>

subsection \<open>The script runs its list of calls\<close>

lemma io_then_Inr [simp]: "m w = Inr ((), w') \<Longrightarrow> io_then m k w = k w'"
  by (simp add: io_then_def io_bind_def)

lemma io_then_Inl [simp]: "m w = Inl x \<Longrightarrow> io_then m k w = Inl x"
  by (simp add: io_then_def io_bind_def)

lemma io_then_assoc: "io_then (io_then a b) c = io_then a (io_then b c)"
  by (rule ext) (simp add: io_then_def io_bind_def split: sum.splits)

lemma io_then_return [simp]: "io_then m (\<lambda>w. Inr ((), w)) = m"
  by (rule ext) (simp add: io_then_def io_bind_def split: sum.splits)

lemma io_then_return_left [simp]: "io_then (\<lambda>w. Inr ((), w)) m = m"
  by (rule ext) (simp add: io_then_def io_bind_def split: sum.splits)

lemma run_calls_append: "run_calls (cs @ ds) = io_then (run_calls cs) (run_calls ds)"
  by (induction cs) (simp_all add: io_then_assoc)

lemma loop_body_calls: "loop_body file x = run_calls (map (Write (name file)) (body_chunks x))"
  by (simp add: loop_body_def body_chunks_def py_write_def)

lemma for_loop_calls:
  "for_loop file xs = run_calls (map (Write (name file)) (concat (map body_chunks xs)))"
  by (induction xs) (simp_all add: loop_body_calls run_calls_append)

lemma main_run_calls: "main_run = run_calls main_calls"
proof
  fix w
  show "main_run w = run_calls main_calls w"
    by (simp add: main_run_def main_calls_def main_chunks_def py_open_def py_close_def py_write_def
        for_loop_calls run_calls_append io_then_def io_bind_def split: sum.splits)
qed

subsection \<open>The effect of calls that do not raise\<close>

lemma perform_simps [simp]:
  "trace (perform c w) = trace w @ [c]"
  "faults (perform c w) = faults w"
  "environ (perform c w) = environ w"
  "argv (perform c w) = argv w"
  "script_dir (perform c w) = script_dir w"
  "stdlib_dir (perform c w) = stdlib_dir w"
  "sys_modules (perform c w) = sys_modules w"
  "loads (perform c w) = loads w"
  "write_bytecode (perform c w) = write_bytecode w"
  "py_exec (perform c w) = py_exec w"
  "py_compile (perform c w) = py_compile w"
  by (cases c; simp add: perform_def log_call_def)+

lemma log_call_simps [simp]:
  "trace (log_call c w) = trace w @ [c]"
  "faults (log_call c w) = faults w"
  "environ (log_call c w) = environ w"
  "argv (log_call c w) = argv w"
  "fs (log_call c w) = fs w"
  "open_files (log_call c w) = open_files w"
  "script_dir (log_call c w) = script_dir w"
  "stdlib_dir (log_call c w) = stdlib_dir w"
  "sys_modules (log_call c w) = sys_modules w"
  "loads (log_call c w) = loads w"
  "write_bytecode (log_call c w) = write_bytecode w"
  "py_exec (log_call c w) = py_exec w"
  "py_compile (log_call c w) = py_compile w"
  by (simp_all add: log_call_def)

lemma perform_Open:
  "fs (perform (Open nm) w) = (fs w)(nm \<mapsto> [])"
  "open_files (perform (Open nm) w) = nm # open_files w"
  by (simp_all add: perform_def)

lemma perform_Write:
  "fs (perform (Write nm s) w) = (fs w)(nm \<mapsto> (case fs w nm of None \<Rightarrow> s | Some c \<Rightarrow> c @ s))"
  "open_files (perform (Write nm s) w) = open_files w"
  by (simp_all add: perform_def)

lemma perform_Close:
  "fs (perform (Close nm) w) = fs w"
  "open_files (perform (Close nm) w) = remove1 nm (open_files w)"
  by (simp_all add: perform_def)


lemma perform_all_Nil [simp]: "perform_all [] w = w"
  by (simp add: perform_all_def)

lemma perform_all_Cons [simp]: "perform_all (c # cs) w = perform_all cs (perform c w)"
  by (simp add: perform_all_def)

lemma perform_all_append: "perform_all (cs @ ds) w = perform_all ds (perform_all cs w)"
  by (simp add: perform_all_def)

lemma perform_all_simps [simp]:
  "trace (perform_all cs w) = trace w @ cs"
  "faults (perform_all cs w) = faults w"
  "environ (perform_all cs w) = environ w"
  "argv (perform_all cs w) = argv w"
  "script_dir (perform_all cs w) = script_dir w"
  "stdlib_dir (perform_all cs w) = stdlib_dir w"
  "sys_modules (perform_all cs w) = sys_modules w"
  "loads (perform_all cs w) = loads w"
  "write_bytecode (perform_all cs w) = write_bytecode w"
  "py_exec (perform_all cs w) = py_exec w"
  "py_compile (perform_all cs w) = py_compile w"
  by (induction cs arbitrary: w; simp)+


lemma perform_all_writes_fs:
  "fs w nm = Some c \<Longrightarrow>
   fs (perform_all (map (Write nm) ss) w) = (fs w)(nm \<mapsto> c @ concat ss)"
proof (induction ss arbitrary: w c)
  case Nil
  then show ?case by (simp add: map_upd_triv)
next
  case (Cons s ss)
  have "fs (perform (Write nm s) w) nm = Some (c @ s)"
    using Cons.prems by (simp add: perform_def)
  from Cons.IH [OF this] show ?case
    using Cons.prems by (auto simp add: perform_def fun_eq_iff)
qed

lemma perform_all_writes_open_files:
  "open_files (perform_all (map (Write nm) ss) w) = open_files w"
  by (induction ss arbitrary: w) (simp_all add: perform_def)

subsection \<open>Runs of a list of calls\<close>

lemma syscall_ok: "faults w (length (trace w)) = None \<Longrightarrow> syscall c w = Inr ((), perform c w)"
  by (simp add: syscall_def)

lemma syscall_fail: "faults w (length (trace w)) = Some e \<Longrightarrow> syscall c w = Inl (e, log_call c w)"
  by (simp add: syscall_def)

lemma run_calls_ok:
  "(\<And>k. k < length cs \<Longrightarrow> faults w (length (trace w) + k) = None) \<Longrightarrow>
   run_calls cs w = Inr ((), perform_all cs w)"
proof (induction cs arbitrary: w)
  case Nil
  show ?case by simp
next
  case (Cons c cs)
  have first: "faults w (length (trace w)) = None"
    using Cons.prems [of 0] by simp
  have rest: "faults (perform c w) (length (trace (perform c w)) + k) = None"
    if "k < length cs" for k
    using Cons.prems [of "Suc k"] that by simp
  show ?case
    using Cons.IH [OF rest] by (simp add: syscall_ok [OF first])
qed

lemma run_calls_fail:
  "k < length cs \<Longrightarrow>
   (\<And>j. j < k \<Longrightarrow> faults w (length (trace w) + j) = None) \<Longrightarrow>
   faults w (length (trace w) + k) = Some e \<Longrightarrow>
   run_calls cs w = Inl (e, log_call (cs ! k) (perform_all (take k cs) w))"
proof (induction cs arbitrary: w k)
  case Nil
  then show ?case by simp
next
  case (Cons c cs)
  show ?case
  proof (cases k)
    case 0
    then show ?thesis using Cons.prems(3) by (simp add: syscall_fail)
  next
    case (Suc k')
    have first: "faults w (length (trace w)) = None"
      using Cons.prems(2) [of 0] Suc by simp
    have lt: "k' < length cs" using Cons.prems(1) Suc by simp
    have rest: "faults (perform c w) (length (trace (perform c w)) + j) = None"
      if "j < k'" for j
      using Cons.prems(2) [of "Suc j"] that Suc by simp
    have hit: "faults (perform c w) (length (trace (perform c w)) + k') = Some e"
      using Cons.prems(3) Suc by simp
    show ?thesis
      using Cons.IH [OF lt rest hit] Suc by (simp add: syscall_ok [OF first])
  qed
qed

lemma run_calls_Inr_no_fault:
  "run_calls cs w = Inr r \<Longrightarrow> k < length cs \<Longrightarrow> faults w (length (trace w) + k) = None"
proof (induction cs arbitrary: w k)
  case Nil
  then show ?case by simp
next
  case (Cons c cs)
  have first: "faults w (length (trace w)) = None"
    using Cons.prems(1) by (cases "faults w (length (trace w))") (simp_all add: syscall_fail)
  show ?case
  proof (cases k)
    case 0
    then show ?thesis using first by simp
  next
    case (Suc k')
    have "run_calls cs (perform c w) = Inr r"
      using Cons.prems(1) by (simp add: syscall_ok [OF first])
    from Cons.IH [OF this, of k'] show ?thesis
      using Cons.prems(2) Suc by simp
  qed
qed

subsection \<open>The run of the script\<close>

lemma length_range_py: "length (range_py a b) = nat (b - a)"
  by (simp add: range_py_def)

lemma length_body_chunks: "length (body_chunks x) = 5"
  by (simp add: body_chunks_def)

lemma length_concat_const:
  "(\<And>x. x \<in> set xs \<Longrightarrow> length (f x) = n) \<Longrightarrow> length (concat (map f xs)) = n * length xs"
  by (induction xs) simp_all

lemma length_main_chunks: "length main_chunks = 582"
  by (simp add: main_chunks_def length_concat_const [where n = 5] length_body_chunks length_range_py)

lemma length_main_calls: "length main_calls = 584"
  by (simp add: main_calls_def length_main_chunks)

lemma perform_all_main:
  "perform_all main_calls w =
     w\<lparr>fs := (fs w)(''test.notemap'' \<mapsto> concat main_chunks), trace := trace w @ main_calls\<rparr>"
proof -
  let ?nm = "''test.notemap''"
  let ?w1 = "perform (Open ?nm) w"
  let ?w2 = "perform_all (map (Write ?nm) main_chunks) ?w1"
  have fs1: "fs ?w1 ?nm = Some []" by (simp add: perform_Open)
  have fs2: "fs ?w2 = (fs w)(?nm \<mapsto> concat main_chunks)"
    using perform_all_writes_fs [OF fs1, of main_chunks] by (simp add: perform_Open)
  have of2: "open_files ?w2 = ?nm # open_files w"
    by (simp add: perform_all_writes_open_files perform_Open)
  have split: "perform_all main_calls w = perform (Close ?nm) ?w2"
    by (simp add: main_calls_def perform_all_append)
  show ?thesis
    unfolding split
    by (rule world.equality) (simp_all add: perform_Close fs2 of2 main_calls_def)
qed

lemma main_run_ok:
  assumes "\<And>k. k < 584 \<Longrightarrow> faults w (length (trace w) + k) = None"
  shows "main_run w =
     Inr ((), w\<lparr>fs := (fs w)(''test.notemap'' \<mapsto> concat main_chunks),
                 trace := trace w @ main_calls\<rparr>)"
  using run_calls_ok [of main_calls w] assms
  by (simp add: main_run_calls length_main_calls perform_all_main)

lemma main_run_Inr:
  assumes "main_run w = Inr r"
  shows "r = ((), w\<lparr>fs := (fs w)(''test.notemap'' \<mapsto> concat main_chunks),
                 trace := trace w @ main_calls\<rparr>)"
proof -
  have "faults w (length (trace w) + k) = None" if "k < 584" for k
    using run_calls_Inr_no_fault [of main_calls w r k] assms that
    by (simp add: main_run_calls length_main_calls)
  from main_run_ok [OF this] assms show ?thesis by simp
qed

subsection \<open>Decimal numerals\<close>

lemma of_char_digit_char: "d < 10 \<Longrightarrow> (of_char (digit_char d) :: nat) = 48 + d"
  by (simp add: digit_char_def)

lemma is_digit_digit_char: "d < 10 \<Longrightarrow> is_digit (digit_char d)"
  by (simp add: is_digit_def of_char_digit_char)

lemma digit_value_digit_char: "d < 10 \<Longrightarrow> digit_value (digit_char d) = d"
  by (simp add: digit_value_def of_char_digit_char)

lemma str_nat_digits: "list_all is_digit (str_nat n)"
proof (induction n rule: str_nat.induct)
  case (1 n)
  show ?case
  proof (cases "n < 10")
    case True
    then show ?thesis by (subst str_nat.simps) (simp add: is_digit_digit_char)
  next
    case False
    then show ?thesis
      using "1.IH" by (subst str_nat.simps) (simp add: is_digit_digit_char)
  qed
qed

lemma str_nat_not_Nil: "str_nat n \<noteq> []"
  by (subst str_nat.simps) simp

lemma dec_value_snoc: "dec_value (s @ [c]) = 10 * dec_value s + digit_value c"
  by (simp add: dec_value_def)

lemma dec_value_str_nat: "dec_value (str_nat n) = n"
proof (induction n rule: str_nat.induct)
  case (1 n)
  show ?case
  proof (cases "n < 10")
    case True
    then show ?thesis
      by (subst str_nat.simps) (simp add: dec_value_def digit_value_digit_char)
  next
    case False
    then show ?thesis
      using "1.IH" by (subst str_nat.simps) (simp add: dec_value_snoc digit_value_digit_char)
  qed
qed

lemma is_digit_not_minus: "is_digit c \<Longrightarrow> c \<noteq> CHR ''-''"
proof
  assume "is_digit c" and "c = CHR ''-''"
  then have "is_digit (CHR ''-'')" by simp
  then show False by (simp add: is_digit_def)
qed

lemma is_digit_not_newline: "is_digit c \<Longrightarrow> c \<noteq> CHR ''\<newline>''"
proof
  assume "is_digit c" and "c = CHR ''\<newline>''"
  then have "is_digit (CHR ''\<newline>'')" by simp
  then show False by (simp add: is_digit_def)
qed

lemma is_digit_emitted: "is_digit c \<Longrightarrow> emitted_char c"
  by (simp add: is_digit_def emitted_char_def)

lemma str_nat_hd_not_minus: "hd (str_nat n) \<noteq> CHR ''-''"
proof -
  have "is_digit (hd (str_nat n))"
    using str_nat_digits [of n] str_nat_not_Nil [of n]
    by (cases "str_nat n") simp_all
  then show ?thesis by (rule is_digit_not_minus)
qed

lemma int_of_str_str: "int_of_str (str i) = i"
proof (cases "i < 0")
  case True
  then show ?thesis by (simp add: int_of_str_def str_def dec_value_str_nat)
next
  case False
  obtain c r where cr: "str_nat (nat i) = c # r"
    using str_nat_not_Nil [of "nat i"] by (cases "str_nat (nat i)") auto
  have c: "c \<noteq> CHR ''-''" using str_nat_hd_not_minus [of "nat i"] cr by simp
  have "dec_value (c # r) = nat i" using dec_value_str_nat [of "nat i"] cr by simp
  then have "int_of_str (c # r) = i" using c False by (simp add: int_of_str_def)
  then show ?thesis using False cr by (simp add: str_def)
qed

lemma str_inj: "str a = str b \<Longrightarrow> a = b"
proof -
  assume "str a = str b"
  then have "int_of_str (str a) = int_of_str (str b)" by (rule arg_cong)
  then show "a = b" by (simp only: int_of_str_str)
qed

lemma str_emitted: "list_all emitted_char (str i)"
proof -
  have "list_all emitted_char (str_nat n)" for n
    using str_nat_digits [of n] is_digit_emitted unfolding list_all_iff by blast
  moreover have "emitted_char (CHR ''-'')" by (simp add: emitted_char_def)
  ultimately show ?thesis by (simp add: str_def)
qed

lemma str_no_newline: "CHR ''\<newline>'' \<notin> set (str i)"
proof -
  have "CHR ''\<newline>'' \<notin> set (str_nat n)" for n
    using str_nat_digits [of n] is_digit_not_newline unfolding list_all_iff by blast
  then show ?thesis by (simp add: str_def)
qed

subsection \<open>Lines of a text\<close>

lemma split_lines_not_Nil [simp]: "split_lines s \<noteq> []"
  by (cases s) (simp_all split: list.splits)

lemma split_lines_plain:
  "CHR ''\<newline>'' \<notin> set l \<Longrightarrow>
   split_lines (l @ r) = (l @ hd (split_lines r)) # tl (split_lines r)"
proof (induction l)
  case Nil
  then show ?case by simp
next
  case (Cons c l)
  then have "c \<noteq> CHR ''\<newline>''" and "CHR ''\<newline>'' \<notin> set l" by auto
  then show ?case using Cons.IH by simp
qed

lemma split_lines_line:
  "CHR ''\<newline>'' \<notin> set l \<Longrightarrow> split_lines (l @ CHR ''\<newline>'' # r) = l # split_lines r"
  by (simp add: split_lines_plain)

lemma split_lines_last: "CHR ''\<newline>'' \<notin> set l \<Longrightarrow> split_lines l = [l]"
  using split_lines_plain [of l "[]"] by simp

lemma split_lines_terminated:
  "(\<And>l. l \<in> set ls \<Longrightarrow> CHR ''\<newline>'' \<notin> set l) \<Longrightarrow>
   split_lines (terminated ls @ r) = ls @ split_lines r"
proof (induction ls)
  case Nil
  show ?case by (simp add: terminated_def)
next
  case (Cons l ls)
  have l: "CHR ''\<newline>'' \<notin> set l" using Cons.prems by simp
  have "split_lines (terminated ls @ r) = ls @ split_lines r"
    using Cons.IH Cons.prems by simp
  then show ?case
    using split_lines_line [OF l, of "terminated ls @ r"] by (simp add: terminated_def)
qed

lemma length_split_lines: "length (split_lines s) = Suc (count_list s (CHR ''\<newline>''))"
proof (induction s)
  case Nil
  show ?case by simp
next
  case (Cons c s)
  obtain l ls where "split_lines s = l # ls"
    using split_lines_not_Nil [of s] by (cases "split_lines s") auto
  then show ?case using Cons.IH by simp
qed

lemma terminated_append: "terminated (ks @ ls) = terminated ks @ terminated ls"
  by (simp add: terminated_def)

lemma terminated_concat: "terminated (concat lss) = concat (map terminated lss)"
  by (induction lss) (simp_all add: terminated_append, simp add: terminated_def)

lemma body_chunks_text: "concat (body_chunks x) = terminated (drum_block x)"
  by (simp add: body_chunks_def drum_block_def drum_header_def terminated_def)

lemma drum_block_no_newline: "l \<in> set (drum_block x) \<Longrightarrow> CHR ''\<newline>'' \<notin> set l"
  using str_no_newline [of x] str_no_newline [of "x - 12"]
  by (auto simp add: drum_block_def drum_header_def)

subsection \<open>The text of the file\<close>

lemma range_py_main: "range_py 12 128 = [12..127]"
proof -
  have "(128::int) - 1 = 127" by simp
  then show ?thesis by (simp only: range_py_def)
qed

lemma set_range_py: "set (range_py a b) = {a..<b}"
  by (auto simp add: range_py_def)

lemma distinct_range_py: "distinct (range_py a b)"
  by (simp add: range_py_def)

lemma sorted_range_py: "sorted_wrt (<) (range_py a b)"
  by (simp add: range_py_def)

lemma nth_range_py: "i < nat (b - a) \<Longrightarrow> range_py a b ! i = a + int i"
  by (simp add: range_py_def)

lemma loop_text:
  "concat (concat (map body_chunks xs)) = terminated (concat (map drum_block xs))"
  by (induction xs) (simp_all add: body_chunks_text terminated_append, simp add: terminated_def)

lemma main_text:
  "concat main_chunks =
     terminated ([''Test notemap file: test.notemap'', '''']
                   @ concat (map drum_block (range_py 12 128)))
       @ ''# vim: sw=4 ts=4 wm=4 et ft=dosini''"
  by (simp add: main_chunks_def loop_text terminated_append) (simp add: terminated_def)

lemma main_lines: "split_lines (concat main_chunks) = notemap_lines"
proof -
  let ?ls = "[''Test notemap file: test.notemap'', ''''] @ concat (map drum_block (range_py 12 128))"
  let ?t = "''# vim: sw=4 ts=4 wm=4 et ft=dosini''"
  have nl: "CHR ''\<newline>'' \<notin> set l" if "l \<in> set ?ls" for l
    using that drum_block_no_newline by auto
  have t: "split_lines ?t = [?t]"
    by (rule split_lines_last) simp
  have "split_lines (terminated ?ls @ ?t) = ?ls @ split_lines ?t"
    using nl by (rule split_lines_terminated)
  then have "split_lines (concat main_chunks) = ?ls @ [?t]"
    by (simp only: main_text t)
  then show ?thesis
    by (simp only: notemap_lines_def range_py_main append_assoc)
qed

lemma length_drum_block: "length (drum_block x) = 7"
  by (simp add: drum_block_def)

lemma length_notemap_lines: "length notemap_lines = 815"
proof -
  have "length (concat (map drum_block (range_py 12 128))) = 7 * length (range_py 12 128)"
    by (rule length_concat_const) (rule length_drum_block)
  then have "length (concat (map drum_block [12..127])) = 812"
    by (simp only: range_py_main [symmetric] length_range_py)
  then show ?thesis by (simp add: notemap_lines_def del: upto_rec_numeral)
qed

lemma headers_of_blocks:
  "filter (\<lambda>l. take 1 l = ''['') (concat (map drum_block xs)) = map drum_header xs"
  by (induction xs) (simp_all add: drum_block_def drum_header_def)

lemma section_headers_main:
  "section_headers (concat main_chunks) = map drum_header [12..127]"
  by (simp only: section_headers_def main_lines notemap_lines_def filter_append headers_of_blocks)
     simp

lemma drum_header_inj: "inj_on drum_header A"
  by (rule inj_onI) (simp add: drum_header_def str_inj)

lemma block_at:
  "(\<And>x. length (f x) = n) \<Longrightarrow> i < length xs \<Longrightarrow>
   take n (drop (n * i) (concat (map f xs))) = f (xs ! i)"
proof (induction xs arbitrary: i)
  case Nil
  then show ?case by simp
next
  case (Cons x xs)
  show ?case
  proof (cases i)
    case 0
    then show ?thesis using Cons.prems(1) [of x] by simp
  next
    case (Suc j)
    then have "j < length xs" using Cons.prems(2) by simp
    from Cons.IH [OF Cons.prems(1) this] show ?thesis
      using Suc Cons.prems(1) [of x] by simp
  qed
qed

subsection \<open>The two outcomes of a run\<close>

lemma first_fault_cases:
  fixes f :: "nat \<Rightarrow> error option"
  shows "(\<forall>k<n. f (m + k) = None) \<or>
         (\<exists>k<n. (\<forall>j<k. f (m + j) = None) \<and> (\<exists>e. f (m + k) = Some e))"
proof (induction n)
  case 0
  show ?case by simp
next
  case (Suc n)
  from Suc.IH show ?case
  proof
    assume clean: "\<forall>k<n. f (m + k) = None"
    show ?thesis
    proof (cases "f (m + n)")
      case None
      with clean have "\<forall>k<Suc n. f (m + k) = None"
        by (simp add: less_Suc_eq)
      then show ?thesis by blast
    next
      case (Some e)
      with clean show ?thesis by blast
    qed
  next
    assume "\<exists>k<n. (\<forall>j<k. f (m + j) = None) \<and> (\<exists>e. f (m + k) = Some e)"
    then show ?thesis using less_Suc_eq by blast
  qed
qed

lemma run_calls_cases:
  "run_calls cs w = Inr ((), perform_all cs w) \<and>
     (\<forall>k<length cs. faults w (length (trace w) + k) = None)
   \<or> (\<exists>k e. k < length cs \<and> (\<forall>j<k. faults w (length (trace w) + j) = None) \<and>
          faults w (length (trace w) + k) = Some e \<and>
          run_calls cs w = Inl (e, log_call (cs ! k) (perform_all (take k cs) w)))"
  using first_fault_cases [of "length cs" "faults w" "length (trace w)"]
proof
  assume clean: "\<forall>k<length cs. faults w (length (trace w) + k) = None"
  then have "run_calls cs w = Inr ((), perform_all cs w)"
    by (simp add: run_calls_ok)
  with clean show ?thesis by blast
next
  assume "\<exists>k<length cs. (\<forall>j<k. faults w (length (trace w) + j) = None) \<and>
            (\<exists>e. faults w (length (trace w) + k) = Some e)"
  then obtain k e where k: "k < length cs"
    and before: "\<forall>j<k. faults w (length (trace w) + j) = None"
    and hit: "faults w (length (trace w) + k) = Some e"
    by blast
  have "run_calls cs w = Inl (e, log_call (cs ! k) (perform_all (take k cs) w))"
    using run_calls_fail [OF k _ hit] before by blast
  with k before hit show ?thesis by blast
qed

lemma trace_failed:
  "k < length cs \<Longrightarrow>
   trace (log_call (cs ! k) (perform_all (take k cs) w)) = trace w @ take (Suc k) cs"
  by (simp add: take_Suc_conv_app_nth)

lemma run_calls_new_calls:
  "\<exists>k\<le>length cs. new_calls w (run_calls cs w) = take k cs"
  using run_calls_cases [of cs w]
proof (elim disjE conjE exE)
  assume "run_calls cs w = Inr ((), perform_all cs w)"
  then have "new_calls w (run_calls cs w) = take (length cs) cs"
    by (simp add: new_calls_def)
  then show ?thesis by blast
next
  fix k e
  assume k: "k < length cs"
    and "run_calls cs w = Inl (e, log_call (cs ! k) (perform_all (take k cs) w))"
  then have "new_calls w (run_calls cs w) = take (Suc k) cs"
    using trace_failed [of k cs w] by (simp add: new_calls_def)
  with k show ?thesis by (metis Suc_leI)
qed





lemma take_main_calls:
  "k \<le> 582 \<Longrightarrow>
   take (Suc k) main_calls = Open ''test.notemap'' # map (Write ''test.notemap'') (take k main_chunks)"
  by (simp add: main_calls_def length_main_chunks take_map)

lemma nth_main_calls_write:
  "1 \<le> k \<Longrightarrow> k \<le> 582 \<Longrightarrow> main_calls ! k = Write ''test.notemap'' (main_chunks ! (k - 1))"
  by (cases k) (simp_all add: main_calls_def length_main_chunks nth_append)

lemma non_writes_main_calls:
  "filter (\<lambda>c. \<not> is_write c) main_calls = [Open ''test.notemap'', Close ''test.notemap'']"
  by (simp add: main_calls_def filter_map comp_def)

lemma body_chunks_emitted: "list_all (list_all emitted_char) (body_chunks x)"
  using str_emitted [of x] str_emitted [of "x - 12"]
  by (simp add: body_chunks_def emitted_char_def)

lemma main_chunks_emitted: "list_all (list_all emitted_char) main_chunks"
proof -
  have "list_all (list_all emitted_char) (concat (map body_chunks xs))" for xs
    by (induction xs) (simp_all add: body_chunks_emitted)
  then show ?thesis by (simp add: main_chunks_def emitted_char_def)
qed

lemma written_main_calls:
  "concat (map written_text (take k main_calls)) = concat (take (k - 1) main_chunks)"
proof (cases k)
  case 0
  then show ?thesis by simp
next
  case (Suc j)
  have w: "concat (map (written_text \<circ> Write nm) ss) = concat ss" for nm ss
    by (induction ss) simp_all
  show ?thesis
  proof (cases "j \<le> 582")
    case True
    then show ?thesis using Suc by (simp add: take_main_calls w)
  next
    case False
    then have "take k main_calls = main_calls" "take (k - 1) main_chunks = main_chunks"
      using Suc by (simp_all add: length_main_calls length_main_chunks)
    then show ?thesis by (simp add: main_calls_def w)
  qed
qed

lemma emitted_not_cr: "emitted_char c \<Longrightarrow> c \<noteq> CHR 0x0D"
proof
  assume "emitted_char c" and "c = CHR 0x0D"
  then have "emitted_char (CHR 0x0D)" by simp
  then show False by (simp add: emitted_char_def)
qed

subsection \<open>Runs in the concrete worlds\<close>

lemma main_run_world0: "main_run world0 = Inr ((), world1)"
  using main_run_ok [of world0] by (simp add: world0_def world1_def)

lemma main_run_world1: "main_run world1 = Inr ((), world2)"
  using main_run_ok [of world1] by (simp add: world0_def world1_def world2_def)

lemma main_run_fail:
  assumes "k < 584"
    and "\<forall>j<k. faults w (length (trace w) + j) = None"
    and "faults w (length (trace w) + k) = Some e"
  shows "main_run w = Inl (e, log_call (main_calls ! k) (perform_all (take k main_calls) w))"
  using run_calls_fail [of k main_calls w e] assms
  by (simp add: main_run_calls length_main_calls)

lemma main_run_disk_full:
  "main_run disk_full =
     Inl (OSError 28,
          log_call (Write ''test.notemap'' ''Test notemap file: test.notemap\<newline>\<newline>'')
            (perform (Open ''test.notemap'') disk_full))"
proof -
  have "main_run disk_full =
      Inl (OSError 28, log_call (main_calls ! 1) (perform_all (take 1 main_calls) disk_full))"
    by (rule main_run_fail) (simp_all add: disk_full_def world0_def)
  moreover have "take 1 main_calls = [Open ''test.notemap'']"
    using take_main_calls [of 0] by simp
  moreover have "main_calls ! 1 = Write ''test.notemap'' ''Test notemap file: test.notemap\<newline>\<newline>''"
    by (simp add: main_calls_def main_chunks_def)
  ultimately show ?thesis by simp
qed

lemma main_output:
  assumes "main_run w = Inr ((), w')"
  shows "fs w' ''test.notemap'' = Some (concat main_chunks)"
  using main_run_Inr [OF assms] by simp

subsection \<open>Further facts about the script\<close>

lemma block_lines_at:
  assumes "12 \<le> N" and "N \<le> 127"
  shows "take 7 (drop (2 + 7 * nat (N - 12)) notemap_lines) = drum_block N"
proof -
  let ?i = "nat (N - 12)"
  let ?bs = "concat (map drum_block (range_py 12 128))"
  have i: "?i < length (range_py 12 128)"
    using assms by (simp add: length_range_py)
  have nth: "range_py 12 128 ! ?i = N"
    using assms by (simp add: nth_range_py)
  have blk: "take 7 (drop (7 * ?i) ?bs) = drum_block N"
    using block_at [of drum_block 7 ?i "range_py 12 128", OF length_drum_block i] nth by simp
  have len: "7 * ?i + 7 \<le> length ?bs"
  proof -
    have "length ?bs = 7 * length (range_py 12 128)"
      by (rule length_concat_const) (rule length_drum_block)
    then show ?thesis using i by simp
  qed
  have nl: "notemap_lines =
      [''Test notemap file: test.notemap'', ''''] @ ?bs @ [''# vim: sw=4 ts=4 wm=4 et ft=dosini'']"
    by (simp only: notemap_lines_def range_py_main)
  have "drop (2 + 7 * ?i) notemap_lines
      = drop (7 * ?i) ?bs @ [''# vim: sw=4 ts=4 wm=4 et ft=dosini'']"
    using len by (simp add: nl)
  then have "take 7 (drop (2 + 7 * ?i) notemap_lines) = take 7 (drop (7 * ?i) ?bs)"
    using len by simp
  then show ?thesis by (simp only: blk)
qed

lemma list_all_concat_take:
  "list_all (list_all P) xss \<Longrightarrow> list_all P (concat (take k xss))"
proof (induction xss arbitrary: k)
  case Nil
  show ?case by simp
next
  case (Cons xs xss)
  then show ?case by (cases k) simp_all
qed

lemma main_new_calls:
  "\<exists>k\<le>584. new_calls w (main_run w) = take k main_calls"
  using run_calls_new_calls [of main_calls w]
  by (simp add: main_run_calls length_main_calls)




lemma main_run_fail_calls:
  assumes "k < 584"
    and "\<forall>j<k. faults w (length (trace w) + j) = None"
    and "faults w (length (trace w) + k) = Some e"
  shows "new_calls w (main_run w) = take (Suc k) main_calls"
proof -
  have "k < length main_calls" using assms(1) by (simp add: length_main_calls)
  from trace_failed [OF this, of w] show ?thesis
    by (simp add: new_calls_def main_run_fail [OF assms])
qed



subsection \<open>The import statements\<close>

lemma notemapgen_imports: "notemapgen = io_then (import_all imported) main_run"
  by (simp add: notemapgen_def imported_def io_then_assoc)

lemma module_file_mem:
  "d \<in> set (search_path w) \<Longrightarrow> m \<in> set imported \<Longrightarrow> module_path d m \<in> set (module_files w)"
  by (auto simp add: module_files_def)

lemma cache_file_mem:
  "d \<in> set (search_path w) \<Longrightarrow> m \<in> set imported \<Longrightarrow> cache_path d m \<in> set (cache_files w)"
  by (auto simp add: cache_files_def)

lemma find_module_Some:
  "find_module w m = Some d \<Longrightarrow> d \<in> set (search_path w)"
  by (auto simp add: find_module_def find_Some_iff)

lemma store_cache_simps [simp]:
  "trace (store_cache d m src w) = trace w"
  "faults (store_cache d m src w) = faults w"
  "environ (store_cache d m src w) = environ w"
  "argv (store_cache d m src w) = argv w"
  "open_files (store_cache d m src w) = open_files w"
  "script_dir (store_cache d m src w) = script_dir w"
  "stdlib_dir (store_cache d m src w) = stdlib_dir w"
  "sys_modules (store_cache d m src w) = sys_modules w"
  "loads (store_cache d m src w) = loads w"
  "write_bytecode (store_cache d m src w) = write_bytecode w"
  "py_exec (store_cache d m src w) = py_exec w"
  "py_compile (store_cache d m src w) = py_compile w"
  by (simp_all add: store_cache_def)

lemma store_cache_fs_other: "n \<noteq> cache_path d m \<Longrightarrow> fs (store_cache d m src w) n = fs w n"
  by (simp add: store_cache_def)

text \<open>The three ways an import ends: nothing to do, no module found, a module file loaded.\<close>

lemma py_import_cases:
  "py_import m w = Inr ((), w)
   \<or> py_import m w = Inl (ModuleNotFoundError m, w)
   \<or> (\<exists>d src. d \<in> set (search_path w) \<and> fs w (module_path d m) = Some src \<and>
         py_import m w = load_module d m src w)"
proof (cases "m \<in> set (sys_modules w)")
  case True
  then show ?thesis by (simp add: py_import_def)
next
  case False
  show ?thesis
  proof (cases "find_module w m")
    case None
    then show ?thesis using False by (simp add: py_import_def)
  next
    case (Some d)
    then have d: "d \<in> set (search_path w)" by (rule find_module_Some)
    show ?thesis
    proof (cases "fs w (module_path d m)")
      case None
      then show ?thesis using False Some by (simp add: py_import_def)
    next
      case (Some src)
      then have "py_import m w = load_module d m src w"
        using False \<open>find_module w m = Some d\<close> by (simp add: py_import_def)
      with d Some show ?thesis by blast
    qed
  qed
qed

lemma load_module_frame:
  "trace (final_world (load_module d m src w)) = trace w"
  "faults (final_world (load_module d m src w)) = faults w"
  "environ (final_world (load_module d m src w)) = environ w"
  "argv (final_world (load_module d m src w)) = argv w"
  "open_files (final_world (load_module d m src w)) = open_files w"
  "script_dir (final_world (load_module d m src w)) = script_dir w"
  "stdlib_dir (final_world (load_module d m src w)) = stdlib_dir w"
  "write_bytecode (final_world (load_module d m src w)) = write_bytecode w"
  "py_exec (final_world (load_module d m src w)) = py_exec w"
  "py_compile (final_world (load_module d m src w)) = py_compile w"
  "loads (final_world (load_module d m src w)) = loads w @ [module_path d m]"
  by (simp_all add: load_module_def Let_def split: option.splits)

lemma load_module_fs_other:
  "n \<noteq> cache_path d m \<Longrightarrow> fs (final_world (load_module d m src w)) n = fs w n"
  by (simp add: load_module_def Let_def store_cache_fs_other split: option.splits)

lemma py_import_frame:
  "trace (final_world (py_import m w)) = trace w"
  "faults (final_world (py_import m w)) = faults w"
  "environ (final_world (py_import m w)) = environ w"
  "argv (final_world (py_import m w)) = argv w"
  "open_files (final_world (py_import m w)) = open_files w"
  "script_dir (final_world (py_import m w)) = script_dir w"
  "stdlib_dir (final_world (py_import m w)) = stdlib_dir w"
  "write_bytecode (final_world (py_import m w)) = write_bytecode w"
  "py_exec (final_world (py_import m w)) = py_exec w"
  "py_compile (final_world (py_import m w)) = py_compile w"
  using py_import_cases [of m w] by (auto simp add: load_module_frame)


lemma py_import_fs_other:
  assumes "m \<in> set imported" and "n \<notin> set (cache_files w)"
  shows "fs (final_world (py_import m w)) n = fs w n"
  using py_import_cases [of m w]
proof (elim disjE exE conjE)
  fix d src
  assume d: "d \<in> set (search_path w)" and run: "py_import m w = load_module d m src w"
  have "n \<noteq> cache_path d m" using cache_file_mem [OF d assms(1)] assms(2) by blast
  then show ?thesis by (simp add: run load_module_fs_other)
qed simp_all

lemma py_import_loads:
  assumes "m \<in> set imported"
  shows "\<exists>ls. loads (final_world (py_import m w)) = loads w @ ls \<and> set ls \<subseteq> set (module_files w)"
  using py_import_cases [of m w]
proof (elim disjE exE conjE)
  fix d src
  assume d: "d \<in> set (search_path w)" and run: "py_import m w = load_module d m src w"
  have "loads (final_world (py_import m w)) = loads w @ [module_path d m]"
    by (simp add: run load_module_frame)
  moreover have "set [module_path d m] \<subseteq> set (module_files w)"
    using module_file_mem [OF d assms] by simp
  ultimately show ?thesis by blast
next
  assume "py_import m w = Inr ((), w)"
  then have "loads (final_world (py_import m w)) = loads w @ []" by simp
  then show ?thesis by (metis empty_set empty_subsetI)
next
  assume "py_import m w = Inl (ModuleNotFoundError m, w)"
  then have "loads (final_world (py_import m w)) = loads w @ []" by simp
  then show ?thesis by (metis empty_set empty_subsetI)
qed

lemma import_frame_refl: "import_frame w w"
  by (simp add: import_frame_def)

lemma import_frame_search:
  assumes "import_frame w u"
  shows "search_path u = search_path w"
    and "cache_files u = cache_files w"
    and "module_files u = module_files w"
proof -
  show s: "search_path u = search_path w"
    using assms by (simp add: import_frame_def search_path_def)
  show "cache_files u = cache_files w" by (simp add: cache_files_def s)
  show "module_files u = module_files w" by (simp add: module_files_def s)
qed

lemma import_frame_trans:
  assumes wu: "import_frame w u" and uv: "import_frame u v"
  shows "import_frame w v"
proof -
  note same = import_frame_search [OF wu]
  obtain ls where ls: "loads u = loads w @ ls" "set ls \<subseteq> set (module_files w)"
    using wu by (auto simp add: import_frame_def)
  obtain ks where ks: "loads v = loads u @ ks" "set ks \<subseteq> set (module_files w)"
    using uv same(3) by (auto simp add: import_frame_def)
  have "loads v = loads w @ (ls @ ks)" and "set (ls @ ks) \<subseteq> set (module_files w)"
    using ls ks by simp_all
  then have l: "\<exists>xs. loads v = loads w @ xs \<and> set xs \<subseteq> set (module_files w)" by blast
  have f: "fs v n = fs w n" if "n \<notin> set (cache_files w)" for n
    using that wu uv same(2) by (simp add: import_frame_def)
  show ?thesis
    using wu uv l f by (simp add: import_frame_def)
qed

lemma py_import_import_frame:
  assumes "m \<in> set imported"
  shows "import_frame w (final_world (py_import m w))"
  unfolding import_frame_def
  using py_import_loads [OF assms, of w] py_import_fs_other [OF assms, of _ w]
  by (simp add: py_import_frame)

lemma io_then_cases:
  "(\<exists>x. a w = Inl x \<and> io_then a b w = Inl x) \<or> (\<exists>u. a w = Inr ((), u) \<and> io_then a b w = b u)"
proof (cases "a w")
  case (Inl x)
  then show ?thesis by simp
next
  case (Inr y)
  then have "a w = Inr ((), snd y)" by (cases y) simp
  then show ?thesis by (metis io_then_Inr)
qed

lemma import_all_import_frame:
  "set ms \<subseteq> set imported \<Longrightarrow> import_frame w (final_world (import_all ms w))"
proof (induction ms arbitrary: w)
  case Nil
  show ?case by (simp add: import_frame_refl)
next
  case (Cons m ms)
  then have m: "m \<in> set imported" and ms: "set ms \<subseteq> set imported" by simp_all
  note first = py_import_import_frame [OF m, of w]
  from io_then_cases [of "py_import m" w "import_all ms"] show ?case
  proof (elim disjE exE conjE)
    fix x
    assume "py_import m w = Inl x" and "io_then (py_import m) (import_all ms) w = Inl x"
    then show ?thesis using first by simp
  next
    fix u
    assume u: "py_import m w = Inr ((), u)"
      and run: "io_then (py_import m) (import_all ms) w = import_all ms u"
    have "import_frame w u" using first u by simp
    moreover have "import_frame u (final_world (import_all ms u))"
      using ms by (rule Cons.IH)
    ultimately show ?thesis using run by (simp add: import_frame_trans)
  qed
qed

text \<open>A run of the module: the imports fail, or they succeed and the rest runs.\<close>

lemma notemapgen_cases:
  "(\<exists>e u. notemapgen w = Inl (e, u) \<and> import_all imported w = Inl (e, u) \<and> import_frame w u)
   \<or> (\<exists>u. notemapgen w = main_run u \<and> import_all imported w = Inr ((), u) \<and> import_frame w u)"
proof -
  have fr: "import_frame w (final_world (import_all imported w))"
    by (rule import_all_import_frame) simp
  from io_then_cases [of "import_all imported" w main_run] show ?thesis
  proof (elim disjE exE conjE)
    fix x
    assume x: "import_all imported w = Inl x" and run: "io_then (import_all imported) main_run w = Inl x"
    obtain e u where "x = (e, u)" by (cases x)
    then show ?thesis using x run fr by (simp add: notemapgen_imports)
  next
    fix u
    assume u: "import_all imported w = Inr ((), u)"
      and run: "io_then (import_all imported) main_run w = main_run u"
    then show ?thesis using fr by (simp add: notemapgen_imports)
  qed
qed














text \<open>
  The statements about \<open>main_run\<close> are statements about the runs of the module: a run of
  the module that gets past its imports is a run of \<open>main_run\<close> from the world the imports
  leave, which has the same calls made, the same choice of failing calls, the same
  environment, arguments and handles, and the same files but for bytecode caches
  (\<open>notemapgen_cases\<close>, \<open>import_frame\<close>).
\<close>

lemma notemapgen_completed:
  assumes "notemapgen w = Inr ((), w')"
  shows "\<exists>u. import_all imported w = Inr ((), u) \<and> main_run u = Inr ((), w') \<and>
             trace u = trace w \<and> faults u = faults w \<and>
             environ u = environ w \<and> argv u = argv w \<and> open_files u = open_files w"
  using notemapgen_cases [of w] assms by (auto simp add: import_frame_def)

section \<open>The claims\<close>

text \<open>
  C1, as amended. In every run that returns, that is, in which the open, every write and
  the close succeed, the file holds exactly 116 section headers; they are
  \<^verbatim>\<open>[Drum N]\<close> for N = 12, ..., 127 in this order, the header at position \<open>i\<close> being
  that of \<open>12 + i\<close>, and no header occurs twice.
\<close>

theorem completed_run_section_headers:
  assumes "main_run w = Inr ((), w')"
  shows "\<exists>c. fs w' ''test.notemap'' = Some c \<and>
           section_headers c = map drum_header [12..127] \<and>
           length (section_headers c) = 116 \<and>
           distinct (section_headers c) \<and>
           (\<forall>i<116. section_headers c ! i = drum_header (12 + int i))"
proof -
  let ?c = "concat main_chunks"
  have hs: "section_headers ?c = map drum_header (range_py 12 128)"
    by (simp only: section_headers_main range_py_main)
  have len: "length (section_headers ?c) = 116"
    by (simp add: hs length_range_py)
  have dist: "distinct (section_headers ?c)"
    unfolding hs
    by (simp add: distinct_map distinct_range_py drum_header_inj)
  have nth: "section_headers ?c ! i = drum_header (12 + int i)" if "i < 116" for i
    using that by (simp add: hs length_range_py nth_range_py)
  have "section_headers ?c = map drum_header [12..127]"
    by (rule section_headers_main)
  with len dist nth main_output [OF assms] show ?thesis by blast
qed

text \<open>
  The run in \<open>world0\<close> returns, so the hypothesis of C1 holds there.
\<close>

theorem completed_run_section_headers_witness:
  "main_run world0 = Inr ((), world1) \<and>
   (\<exists>c. fs world1 ''test.notemap'' = Some c \<and>
        section_headers c = map drum_header [12..127] \<and>
        length (section_headers c) = 116 \<and>
        distinct (section_headers c) \<and>
        (\<forall>i<116. section_headers c ! i = drum_header (12 + int i)))"
  using completed_run_section_headers [OF main_run_world0] main_run_world0 by blast

text \<open>
  C1 as stated asks only that the file can be created. In \<open>disk_full\<close> the open succeeds
  and creates the file, the first write raises, and the run ends there: the file is
  left empty, with no section header at all.
\<close>

theorem created_file_without_sections:
  "py_open ''test.notemap'' disk_full =
     Inr (\<lparr>name = ''test.notemap''\<rparr>, perform (Open ''test.notemap'') disk_full) \<and>
   map_option (length \<circ> section_headers)
     (fs (final_world (main_run disk_full)) ''test.notemap'') = Some 0"
proof -
  have "py_open ''test.notemap'' disk_full =
      Inr (\<lparr>name = ''test.notemap''\<rparr>, perform (Open ''test.notemap'') disk_full)"
    by (simp add: py_open_def io_bind_def syscall_def disk_full_def world0_def)
  moreover have "fs (final_world (main_run disk_full)) ''test.notemap'' = Some []"
    by (simp add: main_run_disk_full perform_Open)
  ultimately show ?thesis by (simp add: section_headers_def)
qed

text \<open>
  C2. In every run that returns and for every N from 12 to 127, the seven lines of the
  file from line \<open>2 + 7 * (N - 12)\<close> on (counting from 0) are the block of N: the header
  \<^verbatim>\<open>[Drum N]\<close>, an empty line, the four settings, an empty line. The number on the
  \<^verbatim>\<open>dev-note\<close> line is N and the number on the \<^verbatim>\<open>gm-note\<close> line is N - 12.
\<close>

theorem drum_block_contents:
  assumes "main_run w = Inr ((), w')" and "12 \<le> N" and "N \<le> 127"
  shows "\<exists>c. fs w' ''test.notemap'' = Some c \<and>
           take 7 (drop (2 + 7 * nat (N - 12)) (split_lines c)) = drum_block N \<and>
           int_of_str (drop 11 (split_lines c ! (2 + 7 * nat (N - 12) + 4))) = N \<and>
           int_of_str (drop 10 (split_lines c ! (2 + 7 * nat (N - 12) + 5))) = N - 12"
proof -
  let ?c = "concat main_chunks"
  let ?p = "2 + 7 * nat (N - 12)"
  have blk: "take 7 (drop ?p (split_lines ?c)) = drum_block N"
    using block_lines_at [OF assms(2,3)] by (simp only: main_lines)
  have at: "split_lines ?c ! (?p + j) = drum_block N ! j" if "j < 7" for j
  proof -
    have "drum_block N ! j = take 7 (drop ?p (split_lines ?c)) ! j" by (simp only: blk)
    also have "\<dots> = drop ?p (split_lines ?c) ! j" using that by simp
    also have "\<dots> = split_lines ?c ! (?p + j)"
    proof (rule nth_drop)
      have "length (split_lines ?c) = 815" by (simp only: main_lines length_notemap_lines)
      moreover have "nat (N - 12) \<le> 115" using assms(2,3) by simp
      ultimately show "?p \<le> length (split_lines ?c)" by simp
    qed
    finally show ?thesis by simp
  qed
  have "split_lines ?c ! (?p + 4) = ''dev-note = '' @ str N"
    using at [of 4] by (simp add: drum_block_def)
  then have dev: "int_of_str (drop 11 (split_lines ?c ! (?p + 4))) = N"
    by (simp add: int_of_str_str)
  have "split_lines ?c ! (?p + 5) = ''gm-note = '' @ str (N - 12)"
    using at [of 5] by (simp add: drum_block_def)
  then have gm: "int_of_str (drop 10 (split_lines ?c ! (?p + 5))) = N - 12"
    by (simp add: int_of_str_str)
  from main_output [OF assms(1)] blk dev gm show ?thesis by blast
qed

text \<open>
  The block of note 12 in the file written from \<open>world0\<close>.
\<close>

theorem drum_block_contents_witness:
  "main_run world0 = Inr ((), world1) \<and> (12::int) \<le> 12 \<and> (12::int) \<le> 127 \<and>
   (\<exists>c. fs world1 ''test.notemap'' = Some c \<and>
        take 7 (drop (2 + 7 * nat (12 - 12)) (split_lines c)) = drum_block 12 \<and>
        int_of_str (drop 11 (split_lines c ! (2 + 7 * nat (12 - 12) + 4))) = 12 \<and>
        int_of_str (drop 10 (split_lines c ! (2 + 7 * nat (12 - 12) + 5))) = 12 - 12)"
proof -
  have a: "(12::int) \<le> 12" and b: "(12::int) \<le> 127" by simp_all
  from drum_block_contents [OF main_run_world0 a b] main_run_world0 a b
  show ?thesis by blast
qed

text \<open>
  C3. In every run that returns, the file starts with the line
  \<^verbatim>\<open>Test notemap file: test.notemap\<close> and an empty line, and ends with the editor line,
  after which there is no line feed.
\<close>

theorem header_and_trailer:
  assumes "main_run w = Inr ((), w')"
  shows "\<exists>c. fs w' ''test.notemap'' = Some c \<and>
           prefix ''Test notemap file: test.notemap\<newline>\<newline>'' c \<and>
           suffix ''# vim: sw=4 ts=4 wm=4 et ft=dosini'' c \<and>
           last c \<noteq> CHR ''\<newline>''"
proof -
  let ?c = "concat main_chunks"
  have p: "prefix ''Test notemap file: test.notemap\<newline>\<newline>'' ?c"
    by (simp add: main_chunks_def)
  have "?c = concat (butlast main_chunks) @ ''# vim: sw=4 ts=4 wm=4 et ft=dosini''"
    by (simp add: main_chunks_def butlast_append)
  then obtain pre where pre: "?c = pre @ ''# vim: sw=4 ts=4 wm=4 et ft=dosini''"
    by blast
  have s: "suffix ''# vim: sw=4 ts=4 wm=4 et ft=dosini'' ?c"
    unfolding pre by (rule suffix_appendI) simp
  have l: "last ?c \<noteq> CHR ''\<newline>''"
    unfolding pre by simp
  from main_output [OF assms] p s l show ?thesis by blast
qed

text \<open>
  In the file written from \<open>world0\<close>.
\<close>

theorem header_and_trailer_witness:
  "main_run world0 = Inr ((), world1) \<and>
   (\<exists>c. fs world1 ''test.notemap'' = Some c \<and>
        prefix ''Test notemap file: test.notemap\<newline>\<newline>'' c \<and>
        suffix ''# vim: sw=4 ts=4 wm=4 et ft=dosini'' c \<and>
        last c \<noteq> CHR ''\<newline>'')"
  using header_and_trailer [OF main_run_world0] main_run_world0 by blast

text \<open>
  C4. Any two runs that return leave the same text in \<^verbatim>\<open>test.notemap\<close>, whatever the
  two worlds they started in; in particular a second run that starts where the first
  one ended, and a run that finds an older file.
\<close>

theorem output_independent_of_prior_state:
  assumes "main_run wa = Inr ((), wa')" and "main_run wb = Inr ((), wb')"
  shows "fs wa' ''test.notemap'' = fs wb' ''test.notemap''"
  using main_output [OF assms(1)] main_output [OF assms(2)] by simp

text \<open>
  Two runs in succession from \<open>world0\<close>, where the file held other text before.
\<close>

theorem output_independent_of_prior_state_witness:
  "main_run world0 = Inr ((), world1) \<and> main_run world1 = Inr ((), world2) \<and>
   fs world0 ''test.notemap'' = Some ''stale'' \<and>
   fs world1 ''test.notemap'' = fs world2 ''test.notemap''"
proof -
  have "fs world0 ''test.notemap'' = Some ''stale''" by (simp add: world0_def)
  with output_independent_of_prior_state [OF main_run_world0 main_run_world1]
    main_run_world0 main_run_world1
  show ?thesis by blast
qed

text \<open>
  C5. When the call number \<open>k\<close> of the run (0 the open, 1 to 582 the writes, 583 the
  close) is the first to raise, the run ends with that very error, and that call is the
  last one it makes: nothing is retried and nothing more is written. When
  the open raises, no file is changed.
\<close>

theorem io_error_ends_run:
  assumes "k < 584"
    and "\<forall>j<k. faults w (length (trace w) + j) = None"
    and "faults w (length (trace w) + k) = Some e"
  shows "main_run w = Inl (e, final_world (main_run w)) \<and>
         new_calls w (main_run w) = take (Suc k) main_calls \<and>
         length (new_calls w (main_run w)) = Suc k \<and>
         (k = 0 \<longrightarrow> fs (final_world (main_run w)) = fs w)"
proof -
  have run: "main_run w = Inl (e, log_call (main_calls ! k) (perform_all (take k main_calls) w))"
    using assms by (rule main_run_fail)
  have a: "main_run w = Inl (e, final_world (main_run w))"
    by (simp add: run)
  have b: "new_calls w (main_run w) = take (Suc k) main_calls"
    using assms by (rule main_run_fail_calls)
  have c: "length (new_calls w (main_run w)) = Suc k"
    using assms(1) by (simp add: b length_main_calls)
  have d: "fs (final_world (main_run w)) = fs w" if "k = 0"
    using that by (simp add: run)
  from a b c d show ?thesis by blast
qed

text \<open>
  In \<open>denied\<close> the open raises and the run ends with its error.
\<close>

theorem io_error_ends_run_witness:
  "(0::nat) < 584 \<and>
   faults denied (length (trace denied) + 0) = Some (OSError 13) \<and>
   main_run denied = Inl (OSError 13, final_world (main_run denied)) \<and>
   new_calls denied (main_run denied) = take (Suc 0) main_calls \<and>
   length (new_calls denied (main_run denied)) = Suc 0 \<and>
   fs (final_world (main_run denied)) = fs denied"
proof -
  have a: "(0::nat) < 584" by simp
  have b: "\<forall>j<0. faults denied (length (trace denied) + j) = None" by simp
  have c: "faults denied (length (trace denied) + 0) = Some (OSError 13)"
    by (simp add: denied_def world0_def)
  from io_error_ends_run [OF a b c] a c show ?thesis by blast
qed




text \<open>
  C7. In a run that returns, the calls other than writes are one open, the first call,
  and one close, the last call, and the handle is given back. When a write is the first
  call to raise, the run ends with the error, the failed write is its last call, no close
  is among its calls and the handle of \<^verbatim>\<open>test.notemap\<close> stays open.
\<close>

theorem handle_opened_and_closed:
  "(main_run w = Inr ((), w') \<longrightarrow>
      filter (\<lambda>c. \<not> is_write c) (new_calls w (main_run w))
        = [Open ''test.notemap'', Close ''test.notemap''] \<and>
      hd (new_calls w (main_run w)) = Open ''test.notemap'' \<and>
      last (new_calls w (main_run w)) = Close ''test.notemap'' \<and>
      open_files w' = open_files w) \<and>
   (1 \<le> k \<and> k \<le> 582 \<and> (\<forall>j<k. faults w (length (trace w) + j) = None) \<and>
    faults w (length (trace w) + k) = Some e \<longrightarrow>
      main_run w = Inl (e, final_world (main_run w)) \<and>
      is_write (main_calls ! k) \<and>
      last (new_calls w (main_run w)) = main_calls ! k \<and>
      Close ''test.notemap'' \<notin> set (new_calls w (main_run w)) \<and>
      open_files (final_world (main_run w)) = ''test.notemap'' # open_files w)"
proof (intro conjI impI)
  assume ok: "main_run w = Inr ((), w')"
  have w': "w' = w\<lparr>fs := (fs w)(''test.notemap'' \<mapsto> concat main_chunks),
                   trace := trace w @ main_calls\<rparr>"
    using main_run_Inr [OF ok] by simp
  have calls: "new_calls w (main_run w) = main_calls"
    by (simp add: new_calls_def ok w')
  show "filter (\<lambda>c. \<not> is_write c) (new_calls w (main_run w))
        = [Open ''test.notemap'', Close ''test.notemap'']"
    by (simp only: calls non_writes_main_calls)
  show "hd (new_calls w (main_run w)) = Open ''test.notemap''"
    by (simp add: calls main_calls_def)
  show "last (new_calls w (main_run w)) = Close ''test.notemap''"
    by (simp add: calls main_calls_def)
  show "open_files w' = open_files w"
    by (simp add: w')
next
  assume h: "1 \<le> k \<and> k \<le> 582 \<and> (\<forall>j<k. faults w (length (trace w) + j) = None) \<and>
    faults w (length (trace w) + k) = Some e"
  then have k: "k < 584" and k1: "1 \<le> k" and k2: "k \<le> 582"
    and before: "\<forall>j<k. faults w (length (trace w) + j) = None"
    and hit: "faults w (length (trace w) + k) = Some e"
    by simp_all
  have run: "main_run w = Inl (e, log_call (main_calls ! k) (perform_all (take k main_calls) w))"
    using k before hit by (rule main_run_fail)
  have calls: "new_calls w (main_run w)
      = Open ''test.notemap'' # map (Write ''test.notemap'') (take k main_chunks)"
    using main_run_fail_calls [OF k before hit] take_main_calls [OF k2] by simp
  have wr: "main_calls ! k = Write ''test.notemap'' (main_chunks ! (k - 1))"
    using k1 k2 by (rule nth_main_calls_write)
  obtain j where j: "k = Suc j" using k1 by (cases k) simp_all
  then have "j \<le> 582" using k2 by simp
  then have tk: "take k main_calls
      = Open ''test.notemap'' # map (Write ''test.notemap'') (take j main_chunks)"
    using take_main_calls [of j] j by simp
  show "main_run w = Inl (e, final_world (main_run w))"
    by (simp add: run)
  show "is_write (main_calls ! k)"
    by (simp add: wr)
  show "last (new_calls w (main_run w)) = main_calls ! k"
    using main_run_fail_calls [OF k before hit] k
    by (simp add: take_Suc_conv_app_nth length_main_calls)
  show "Close ''test.notemap'' \<notin> set (new_calls w (main_run w))"
    by (auto simp add: calls)
  show "open_files (final_world (main_run w)) = ''test.notemap'' # open_files w"
    by (simp add: run tk perform_all_writes_open_files perform_Open)
qed

text \<open>
  The first half in \<open>world0\<close>, the second in \<open>disk_full\<close>, where the first write raises.
\<close>

theorem handle_opened_and_closed_witness:
  "main_run world0 = Inr ((), world1) \<and>
   filter (\<lambda>c. \<not> is_write c) (new_calls world0 (main_run world0))
     = [Open ''test.notemap'', Close ''test.notemap''] \<and>
   hd (new_calls world0 (main_run world0)) = Open ''test.notemap'' \<and>
   last (new_calls world0 (main_run world0)) = Close ''test.notemap'' \<and>
   open_files world1 = open_files world0 \<and>
   (1::nat) \<le> 1 \<and> (1::nat) \<le> 582 \<and>
   faults disk_full (length (trace disk_full) + 1) = Some (OSError 28) \<and>
   main_run disk_full = Inl (OSError 28, final_world (main_run disk_full)) \<and>
   is_write (main_calls ! 1) \<and>
   last (new_calls disk_full (main_run disk_full)) = main_calls ! 1 \<and>
   Close ''test.notemap'' \<notin> set (new_calls disk_full (main_run disk_full)) \<and>
   open_files (final_world (main_run disk_full)) = ''test.notemap'' # open_files disk_full"
proof -
  have h1: "\<forall>j<1. faults disk_full (length (trace disk_full) + j) = None"
    by (simp add: disk_full_def world0_def)
  have h2: "faults disk_full (length (trace disk_full) + 1) = Some (OSError 28)"
    by (simp add: disk_full_def world0_def)
  have h: "(1::nat) \<le> 1 \<and> (1::nat) \<le> 582 \<and>
      (\<forall>j<1. faults disk_full (length (trace disk_full) + j) = None) \<and>
      faults disk_full (length (trace disk_full) + 1) = Some (OSError 28)"
    using h1 h2 by (intro conjI) simp_all
  note ok = mp [OF conjunct1 [OF handle_opened_and_closed [of world0 world1 1 "OSError 28"]]
    main_run_world0]
  note bad = mp [OF conjunct2 [OF handle_opened_and_closed [of disk_full world1 1 "OSError 28"]] h]
  have h3: "(1::nat) \<le> 1 \<and> (1::nat) \<le> 582" by simp
  show ?thesis
    using main_run_world0 ok h3 h2 bad by (intro conjI) (erule conjE | assumption)+
qed




text \<open>
  C9. Whether the run returns or raises, every character it writes is a line feed or
  printable ASCII, and none is a carriage return; so it is for the whole file of a run
  that returns. This is about the characters handed to \<^verbatim>\<open>write\<close>.
\<close>

theorem emitted_characters:
  "list_all emitted_char (concat (map written_text (new_calls w (main_run w)))) \<and>
   CHR 0x0D \<notin> set (concat (map written_text (new_calls w (main_run w)))) \<and>
   (main_run w = Inr ((), w') \<longrightarrow>
      (\<exists>c. fs w' ''test.notemap'' = Some c \<and> list_all emitted_char c \<and> CHR 0x0D \<notin> set c))"
proof -
  have clean: "list_all emitted_char (concat (take k main_chunks))" for k
    using main_chunks_emitted by (rule list_all_concat_take)
  have cr: "CHR 0x0D \<notin> set s" if "list_all emitted_char s" for s
    using that emitted_not_cr unfolding list_all_iff by blast
  obtain k where "new_calls w (main_run w) = take k main_calls"
    using main_new_calls [of w] by blast
  then have written: "concat (map written_text (new_calls w (main_run w)))
      = concat (take (k - 1) main_chunks)"
    by (simp only: written_main_calls)
  have a: "list_all emitted_char (concat (map written_text (new_calls w (main_run w))))"
    unfolding written by (rule clean)
  have whole: "list_all emitted_char (concat main_chunks)"
    using clean [of "length main_chunks"] by simp
  have "\<exists>c. fs w' ''test.notemap'' = Some c \<and> list_all emitted_char c \<and> CHR 0x0D \<notin> set c"
    if "main_run w = Inr ((), w')"
    using main_output [OF that] whole cr [OF whole] by blast
  with a cr [OF a] show ?thesis by blast
qed

text \<open>
  In the run from \<open>world0\<close>.
\<close>

theorem emitted_characters_witness:
  "main_run world0 = Inr ((), world1) \<and>
   list_all emitted_char (concat (map written_text (new_calls world0 (main_run world0)))) \<and>
   CHR 0x0D \<notin> set (concat (map written_text (new_calls world0 (main_run world0)))) \<and>
   (\<exists>c. fs world1 ''test.notemap'' = Some c \<and> list_all emitted_char c \<and> CHR 0x0D \<notin> set c)"
  using emitted_characters [of world0 world1] main_run_world0 by blast

text \<open>
  C10. In every run that returns, the file has 814 line feeds, hence 815 lines; the last
  line is the editor line, and the file does not end in a line feed.
\<close>

theorem line_feed_count:
  assumes "main_run w = Inr ((), w')"
  shows "\<exists>c. fs w' ''test.notemap'' = Some c \<and>
           count_list c (CHR ''\<newline>'') = 814 \<and>
           length (split_lines c) = 815 \<and>
           last (split_lines c) = ''# vim: sw=4 ts=4 wm=4 et ft=dosini'' \<and>
           last c \<noteq> CHR ''\<newline>''"
proof -
  let ?c = "concat main_chunks"
  have len: "length (split_lines ?c) = 815"
    by (simp only: main_lines length_notemap_lines)
  then have cnt: "count_list ?c (CHR ''\<newline>'') = 814"
    by (simp add: length_split_lines)
  have lst: "last (split_lines ?c) = ''# vim: sw=4 ts=4 wm=4 et ft=dosini''"
    by (simp only: main_lines notemap_lines_def append_assoc [symmetric] last_snoc)
  have "?c = concat (butlast main_chunks) @ ''# vim: sw=4 ts=4 wm=4 et ft=dosini''"
    by (simp add: main_chunks_def butlast_append)
  then obtain pre where pre: "?c = pre @ ''# vim: sw=4 ts=4 wm=4 et ft=dosini''"
    by blast
  have l: "last ?c \<noteq> CHR ''\<newline>''"
    unfolding pre by simp
  from main_output [OF assms] len cnt lst l show ?thesis by blast
qed

text \<open>
  In the file written from \<open>world0\<close>.
\<close>

theorem line_feed_count_witness:
  "main_run world0 = Inr ((), world1) \<and>
   (\<exists>c. fs world1 ''test.notemap'' = Some c \<and>
        count_list c (CHR ''\<newline>'') = 814 \<and>
        length (split_lines c) = 815 \<and>
        last (split_lines c) = ''# vim: sw=4 ts=4 wm=4 et ft=dosini'' \<and>
        last c \<noteq> CHR ''\<newline>'')"
  using line_feed_count [OF main_run_world0] main_run_world0 by blast

end
